theory Spec2Isabelle
  imports Complex_Main
begin

section \<open>Conventions of the embedding\<close>

text \<open>
  The development embeds \<^verbatim>\<open>common/rate_limiter.py\<close> and
  \<^verbatim>\<open>common/concurrent_manager.py\<close>.

  \<^item> Python floats are modelled by exact rationals (\<open>rat\<close>): the literals \<open>0.9\<close>,
    \<open>0.7\<close>, \<open>1.1\<close>, \<open>0.6\<close> are \<open>9/10\<close>, \<open>7/10\<close>, \<open>11/10\<close>, \<open>6/10\<close>.
    Rounding of IEEE doubles is not modelled.
  \<^item> Every reading of \<^verbatim>\<open>time.time()\<close> is a parameter of the operation that
    performs it, in the order in which the source reads the clock.
  \<^item> Every call of \<^verbatim>\<open>time.sleep\<close> is returned as an output.
  \<^item> The operations are modelled as run by one thread at a time; a lock appears in a
    model only where one thread acquires it twice.
\<close>

section \<open>RateLimiter\<close>

text \<open>
  \<^verbatim>\<open>self.requests\<close> is a single deque when \<^verbatim>\<open>global_limit\<close> is set and a
  \<^verbatim>\<open>defaultdict\<close> of deques otherwise. The record keeps one field for each shape;
  every method selects the live one by \<open>global_limit\<close>, exactly as the source does.
  A deque is a list, oldest entry first.
\<close>

record RateLimiter =
  max_requests :: int
  time_window :: rat
  global_limit :: bool
  requests_global :: "rat list"
  requests_host :: "string \<rightharpoonup> rat list"

definition RateLimiter_init :: "int \<Rightarrow> rat \<Rightarrow> bool \<Rightarrow> RateLimiter" where
  "RateLimiter_init mr tw gl =
     \<lparr>max_requests = mr, time_window = tw, global_limit = gl,
      requests_global = [], requests_host = Map.empty\<rparr>"

text \<open>\<^verbatim>\<open>host or 'default'\<close>: \<^verbatim>\<open>None\<close> and the empty string are both falsy.\<close>

definition host_key :: "string option \<Rightarrow> string" where
  "host_key host = (case host of None \<Rightarrow> ''default''
                    | Some h \<Rightarrow> (if h = [] then ''default'' else h))"

text \<open>\<^verbatim>\<open>self.requests[key]\<close> on the defaultdict: a missing key reads as an empty deque.\<close>

definition host_requests_of :: "RateLimiter \<Rightarrow> string \<Rightarrow> rat list" where
  "host_requests_of l k = (case requests_host l k of None \<Rightarrow> [] | Some q \<Rightarrow> q)"

text \<open>
  \<^verbatim>\<open>while q and q[0] <= current_time - self.time_window: q.popleft()\<close>,
  with \<open>bound = current_time - time_window\<close>.
\<close>

fun popleft_expired :: "rat \<Rightarrow> rat list \<Rightarrow> rat list" where
  "popleft_expired bound [] = []"
| "popleft_expired bound (t # ts) =
     (if t \<le> bound then popleft_expired bound ts else t # ts)"

definition can_make_request :: "RateLimiter \<Rightarrow> string option \<Rightarrow> rat \<Rightarrow> bool \<times> RateLimiter" where
  "can_make_request l host current_time =
     (if global_limit l then
        (let q = popleft_expired (current_time - time_window l) (requests_global l)
         in (int (length q) < max_requests l, l\<lparr>requests_global := q\<rparr>))
      else
        (let k = host_key host;
             q = popleft_expired (current_time - time_window l) (host_requests_of l k)
         in (int (length q) < max_requests l,
             l\<lparr>requests_host := (requests_host l)(k \<mapsto> q)\<rparr>)))"

definition record_request :: "RateLimiter \<Rightarrow> string option \<Rightarrow> rat \<Rightarrow> RateLimiter" where
  "record_request l host current_time =
     (if global_limit l then l\<lparr>requests_global := requests_global l @ [current_time]\<rparr>
      else (let k = host_key host
            in l\<lparr>requests_host := (requests_host l)(k \<mapsto> host_requests_of l k @ [current_time])\<rparr>))"

text \<open>The deque of the scope that a call with argument \<open>host\<close> works on.\<close>

definition window_queue :: "RateLimiter \<Rightarrow> string option \<Rightarrow> rat list" where
  "window_queue l host =
     (if global_limit l then requests_global l else host_requests_of l (host_key host))"

text \<open>
  \<open>wait_if_needed l host t_check t_now\<close>: \<open>t_check\<close> is the clock reading inside
  \<^verbatim>\<open>can_make_request\<close>, \<open>t_now\<close> the next reading (inside \<^verbatim>\<open>record_request\<close> on the
  fast path, under the lock on the slow path). The result is the returned wait, the list
  of \<^verbatim>\<open>time.sleep\<close> calls made, and the limiter afterwards.
\<close>

definition wait_if_needed ::
  "RateLimiter \<Rightarrow> string option \<Rightarrow> rat \<Rightarrow> rat \<Rightarrow> rat \<times> rat list \<times> RateLimiter" where
  "wait_if_needed l host t_check t_now =
     (case can_make_request l host t_check of
        (ok, l1) \<Rightarrow>
          if ok then (0, [], record_request l1 host t_now)
          else
            (let sleep_time =
                   (case window_queue l1 host of
                      [] \<Rightarrow> 0
                    | earliest_time # _ \<Rightarrow> max 0 (earliest_time + time_window l1 - t_now))
             in (sleep_time,
                 (if sleep_time > 0 then [sleep_time] else []),
                 record_request l1 host (t_now + sleep_time))))"

text \<open>
  The reference the rate window is compared with: the timestamps a brute-force filter
  \<^verbatim>\<open>timestamp > now - time_window\<close> retains.
\<close>

definition brute_force_retained :: "RateLimiter \<Rightarrow> string option \<Rightarrow> rat \<Rightarrow> rat list" where
  "brute_force_retained l host now =
     filter (\<lambda>t. t > now - time_window l) (window_queue l host)"

section \<open>AdaptiveRateLimiter\<close>

record AdaptiveRateLimiter =
  initial_rate :: int
  min_rate :: int
  max_rate :: int
  current_rate :: int
  success_count :: int
  failure_count :: int
  window_start :: rat
  window_size :: rat
  limiters :: "string \<rightharpoonup> RateLimiter"

text \<open>\<open>AdaptiveRateLimiter_init\<close> reads the clock once, for \<^verbatim>\<open>window_start\<close>.\<close>

definition AdaptiveRateLimiter_init :: "int \<Rightarrow> int \<Rightarrow> int \<Rightarrow> rat \<Rightarrow> AdaptiveRateLimiter" where
  "AdaptiveRateLimiter_init ir mn mx now =
     \<lparr>initial_rate = ir, min_rate = mn, max_rate = mx, current_rate = ir,
      success_count = 0, failure_count = 0, window_start = now, window_size = 10,
      limiters = Map.empty\<rparr>"

definition get_limiter :: "AdaptiveRateLimiter \<Rightarrow> string \<Rightarrow> RateLimiter \<times> AdaptiveRateLimiter" where
  "get_limiter a host =
     (case limiters a host of
        Some limiter \<Rightarrow> (limiter, a)
      | None \<Rightarrow>
          (let limiter = RateLimiter_init (current_rate a) 1 False
           in (limiter, a\<lparr>limiters := (limiters a)(host \<mapsto> limiter)\<rparr>)))"

text \<open>Python's \<^verbatim>\<open>int(x)\<close> on a float truncates towards zero.\<close>

definition py_int :: "rat \<Rightarrow> int" where
  "py_int x = (if 0 \<le> x then \<lfloor>x\<rfloor> else \<lceil>x\<rceil>)"

text \<open>\<^verbatim>\<open>self.success_count / max(1, self.success_count + self.failure_count)\<close>\<close>

definition window_success_rate :: "int \<Rightarrow> int \<Rightarrow> rat" where
  "window_success_rate s f = of_int s / of_int (max 1 (s + f))"

text \<open>The \<^verbatim>\<open>if success_rate > 0.9: ... elif success_rate < 0.7: ...\<close> step.\<close>

definition adjusted_rate :: "AdaptiveRateLimiter \<Rightarrow> rat \<Rightarrow> int" where
  "adjusted_rate a success_rate =
     (if success_rate > 9 / 10 then
        min (max_rate a) (py_int (of_int (current_rate a) * (11 / 10)))
      else if success_rate < 7 / 10 then
        max (min_rate a) (py_int (of_int (current_rate a) * (9 / 10)))
      else current_rate a)"

definition report_result :: "AdaptiveRateLimiter \<Rightarrow> string \<Rightarrow> bool \<Rightarrow> rat \<Rightarrow> AdaptiveRateLimiter" where
  "report_result a host success current_time =
     (let a1 = (if success then a\<lparr>success_count := success_count a + 1\<rparr>
                else a\<lparr>failure_count := failure_count a + 1\<rparr>)
      in if current_time - window_start a1 \<ge> window_size a1 then
           (let success_rate = window_success_rate (success_count a1) (failure_count a1);
                new_rate = adjusted_rate a1 success_rate
            in a1\<lparr>current_rate := new_rate,
                  window_start := current_time,
                  success_count := 0,
                  failure_count := 0,
                  limiters := (\<lambda>h. map_option (\<lambda>limiter. limiter\<lparr>max_requests := new_rate\<rparr>)
                                               (limiters a1 h))\<rparr>)
         else a1)"

text \<open>
  \<^verbatim>\<open>AdaptiveRateLimiter.wait_if_needed\<close>: the limiter of the host, created on first use,
  does the waiting; it is the object stored in \<^verbatim>\<open>limiters\<close>, so its new window is seen
  there.
\<close>

definition AdaptiveRateLimiter_wait_if_needed ::
  "AdaptiveRateLimiter \<Rightarrow> string \<Rightarrow> rat \<Rightarrow> rat \<Rightarrow> rat \<times> rat list \<times> AdaptiveRateLimiter" where
  "AdaptiveRateLimiter_wait_if_needed a host t_check t_now =
     (case get_limiter a host of
        (limiter, a1) \<Rightarrow>
          (case wait_if_needed limiter (Some host) t_check t_now of
             (wait, sleeps, limiter') \<Rightarrow>
               (wait, sleeps, a1\<lparr>limiters := (limiters a1)(host \<mapsto> limiter')\<rparr>)))"

text \<open>
  The module functions \<^verbatim>\<open>should_delay_request\<close> and \<^verbatim>\<open>set_host_rate_limit\<close>, with the
  controller they act on (\<^verbatim>\<open>global_rate_limiter\<close> in the source) as a parameter.
\<close>

definition should_delay_request ::
  "AdaptiveRateLimiter \<Rightarrow> string \<Rightarrow> rat \<Rightarrow> bool \<times> AdaptiveRateLimiter" where
  "should_delay_request a host now =
     (case get_limiter a host of
        (limiter, a1) \<Rightarrow>
          (case can_make_request limiter (Some host) now of
             (ok, limiter') \<Rightarrow> (\<not> ok, a1\<lparr>limiters := (limiters a1)(host \<mapsto> limiter')\<rparr>)))"

definition set_host_rate_limit :: "AdaptiveRateLimiter \<Rightarrow> string \<Rightarrow> int \<Rightarrow> AdaptiveRateLimiter" where
  "set_host_rate_limit a host rate =
     (case get_limiter a host of
        (limiter, a1) \<Rightarrow>
          a1\<lparr>limiters := (limiters a1)(host \<mapsto> limiter\<lparr>max_requests := rate\<rparr>)\<rparr>)"

text \<open>
  The calls that can act on a controller, each with the clock readings it makes, and a
  run of such calls in order.
\<close>

datatype controller_call =
  Report string bool rat
| GetLimiter string
| WaitIfNeeded string rat rat
| ShouldDelay string rat
| SetHostRate string int

fun run_controller_call :: "controller_call \<Rightarrow> AdaptiveRateLimiter \<Rightarrow> AdaptiveRateLimiter" where
  "run_controller_call (Report host success t) a = report_result a host success t"
| "run_controller_call (GetLimiter host) a = snd (get_limiter a host)"
| "run_controller_call (WaitIfNeeded host t_check t_now) a =
     snd (snd (AdaptiveRateLimiter_wait_if_needed a host t_check t_now))"
| "run_controller_call (ShouldDelay host now) a = snd (should_delay_request a host now)"
| "run_controller_call (SetHostRate host rate) a = set_host_rate_limit a host rate"

definition run_controller :: "controller_call list \<Rightarrow> AdaptiveRateLimiter \<Rightarrow> AdaptiveRateLimiter" where
  "run_controller calls a = fold run_controller_call calls a"

section \<open>DelayManager\<close>

record DelayManager =
  base_delay :: rat
  jitter :: rat
  host_delays :: "string \<rightharpoonup> rat"

definition DelayManager_init :: "rat \<Rightarrow> rat \<Rightarrow> DelayManager" where
  "DelayManager_init bd j = \<lparr>base_delay = bd, jitter = j, host_delays = Map.empty\<rparr>"

text \<open>
  \<^verbatim>\<open>random.uniform(a, b)\<close> is \<^verbatim>\<open>a + (b - a) * random()\<close>; the draw \<open>r\<close> of
  \<^verbatim>\<open>random()\<close>, a number in \<open>[0, 1)\<close>, is a parameter.
\<close>

definition uniform :: "rat \<Rightarrow> rat \<Rightarrow> rat \<Rightarrow> rat" where
  "uniform a b r = a + (b - a) * r"

definition get_delay :: "DelayManager \<Rightarrow> string \<Rightarrow> rat \<Rightarrow> rat" where
  "get_delay d host r =
     (let host_base = (case host_delays d host of None \<Rightarrow> base_delay d | Some x \<Rightarrow> x)
      in host_base + uniform (- jitter d) (jitter d) r)"

definition set_host_delay :: "DelayManager \<Rightarrow> string \<Rightarrow> rat \<Rightarrow> DelayManager" where
  "set_host_delay d host delay = d\<lparr>host_delays := (host_delays d)(host \<mapsto> delay)\<rparr>"

text \<open>\<open>apply_delay\<close> returns the list of \<^verbatim>\<open>time.sleep\<close> calls it makes.\<close>

definition apply_delay :: "DelayManager \<Rightarrow> string \<Rightarrow> rat \<Rightarrow> rat list" where
  "apply_delay d host r =
     (let delay = get_delay d host r in if delay > 0 then [delay] else [])"

section \<open>DynamicThreadPool\<close>

text \<open>
  \<^verbatim>\<open>_executor\<close> is modelled by the \<^verbatim>\<open>max_workers\<close> the live
  \<^verbatim>\<open>ThreadPoolExecutor\<close> was built with (\<open>None\<close> before the first build).
  \<^verbatim>\<open>_task_queue\<close> is a \<^verbatim>\<open>queue.Queue()\<close> of which the source only ever reads
  \<^verbatim>\<open>qsize()\<close>. \<open>lock_held\<close> says whether \<^verbatim>\<open>self._lock\<close>, a non-reentrant
  \<^verbatim>\<open>threading.Lock\<close>, is currently held.
\<close>

record DynamicThreadPool =
  min_workers :: int
  max_workers :: int
  cpu_threshold :: rat
  memory_threshold :: rat
  executor :: "int option"
  current_workers :: int
  task_queue :: "unit list"
  lock_held :: bool

datatype pool_error = ValueError

text \<open>
  How a call of a method ends: it returns, it raises, or it blocks for ever on a lock
  that is never released. Each case carries the pool as the call leaves it.
\<close>

datatype 'a call_end = Returns 'a | Raises pool_error 'a | Blocks 'a

fun state_of :: "'a call_end \<Rightarrow> 'a" where
  "state_of (Returns p) = p"
| "state_of (Raises e p) = p"
| "state_of (Blocks p) = p"

text \<open>
  \<^verbatim>\<open>_update_executor\<close>: \<^verbatim>\<open>with self._lock\<close> blocks when the lock is held;
  \<^verbatim>\<open>ThreadPoolExecutor(max_workers=n)\<close> raises \<^verbatim>\<open>ValueError\<close> for \<open>n \<le> 0\<close>,
  and the \<^verbatim>\<open>with\<close> statement releases the lock on the way out.
\<close>

definition update_executor :: "DynamicThreadPool \<Rightarrow> DynamicThreadPool call_end" where
  "update_executor p =
     (if lock_held p then Blocks p
      else if current_workers p \<le> 0 then Raises ValueError p
      else Returns (p\<lparr>executor := Some (current_workers p)\<rparr>))"

text \<open>
  \<^verbatim>\<open>__init__\<close> ends as its call of \<^verbatim>\<open>_update_executor\<close> ends: a pool exists only
  when that call returns.
\<close>

definition DynamicThreadPool_init ::
  "int \<Rightarrow> int \<Rightarrow> rat \<Rightarrow> rat \<Rightarrow> DynamicThreadPool call_end" where
  "DynamicThreadPool_init mn mx ct mt =
     update_executor
       \<lparr>min_workers = mn, max_workers = mx, cpu_threshold = ct, memory_threshold = mt,
        executor = None, current_workers = mn, task_queue = [], lock_held = False\<rparr>"

text \<open>
  The nested call of \<^verbatim>\<open>_update_executor\<close> inside \<^verbatim>\<open>with self._lock\<close>: the caller
  holds the lock while the callee runs and releases it when the callee comes back.
\<close>

definition update_executor_locked :: "DynamicThreadPool \<Rightarrow> DynamicThreadPool call_end" where
  "update_executor_locked p =
     (case update_executor (p\<lparr>lock_held := True\<rparr>) of
        Returns q \<Rightarrow> Returns (q\<lparr>lock_held := False\<rparr>)
      | Raises e q \<Rightarrow> Raises e (q\<lparr>lock_held := False\<rparr>)
      | Blocks q \<Rightarrow> Blocks q)"

definition adjust_workers :: "rat \<Rightarrow> rat \<Rightarrow> DynamicThreadPool \<Rightarrow> DynamicThreadPool call_end" where
  "adjust_workers cpu_percent memory_percent p =
     (if lock_held p then Blocks p
      else if cpu_percent > cpu_threshold p \<or> memory_percent > memory_threshold p then
        (if current_workers p > min_workers p then
           update_executor_locked
             (p\<lparr>current_workers := max (min_workers p) (current_workers p - 2)\<rparr>)
         else Returns p)
      else if cpu_percent < cpu_threshold p * (6 / 10)
              \<and> memory_percent < memory_threshold p * (6 / 10)
              \<and> int (length (task_queue p)) > current_workers p then
        (if current_workers p < max_workers p then
           update_executor_locked
             (p\<lparr>current_workers := min (max_workers p) (current_workers p + 2)\<rparr>)
         else Returns p)
      else Returns p)"

definition get_worker_count :: "DynamicThreadPool \<Rightarrow> int" where
  "get_worker_count p = current_workers p"

text \<open>
  A unit of work is a function to a sum: \<open>Inl e\<close> when it raises \<open>e\<close>, \<open>Inr v\<close> when
  it returns \<open>v\<close>. A future is the outcome its \<^verbatim>\<open>result()\<close> delivers. Where the
  source stores what a work unit returned next to its own \<^verbatim>\<open>None\<close> (in \<^verbatim>\<open>map\<close> and
  \<^verbatim>\<open>schedule_batch\<close>), the returned value is a \<open>'b option\<close>: \<open>None\<close> is Python's
  \<^verbatim>\<open>None\<close>, \<open>Some v\<close> any other value. The methods below return the pool next to their
  result. The guard
  \<^verbatim>\<open>if self._executor is None\<close> of \<^verbatim>\<open>submit\<close> and \<^verbatim>\<open>map\<close> is left out: no
  statement assigns \<^verbatim>\<open>None\<close> to \<^verbatim>\<open>_executor\<close> once \<^verbatim>\<open>__init__\<close> has returned
  (lemma \<open>run_calls_executor\<close>).
\<close>

definition submit ::
  "DynamicThreadPool \<Rightarrow> ('a \<Rightarrow> 'e + 'b) \<Rightarrow> 'a \<Rightarrow> ('e + 'b) \<times> DynamicThreadPool" where
  "submit p func x = (func x, p)"

text \<open>
  The result slot for a future: \<^verbatim>\<open>results.append(future.result())\<close> stores the bare
  value, and the handler stores \<^verbatim>\<open>None\<close>. A work unit that returned \<^verbatim>\<open>None\<close> and one
  that raised leave the same slot.
\<close>

definition result_slot :: "'e + 'b option \<Rightarrow> 'b option" where
  "result_slot fut = (case fut of Inr v \<Rightarrow> v | Inl e \<Rightarrow> None)"

text \<open>
  \<open>map_pool p func iterable completion\<close>: one future per item; \<open>completion\<close> lists the
  indices of the futures in the order in which \<^verbatim>\<open>as_completed\<close> yields them. The
  result list is filled in that order.
\<close>

definition map_pool ::
  "DynamicThreadPool \<Rightarrow> ('a \<Rightarrow> 'e + 'b option) \<Rightarrow> 'a list \<Rightarrow> nat list
     \<Rightarrow> 'b option list \<times> DynamicThreadPool" where
  "map_pool p func iterable completion =
     (let futures = map (\<lambda>item. fst (submit p func item)) iterable
      in (map (\<lambda>i. result_slot (futures ! i)) completion, p))"

section \<open>TaskScheduler\<close>

text \<open>
  How \<^verbatim>\<open>schedule_with_backoff\<close> ends: with the value of a successful attempt, by
  re-raising the failure of the last attempt, by the \<^verbatim>\<open>ValueError\<close> of
  \<^verbatim>\<open>time.sleep\<close> on a negative duration, or by falling off the end of the loop
  (the implicit \<^verbatim>\<open>None\<close>, when \<^verbatim>\<open>range(max_retries + 1)\<close> is empty).
\<close>

datatype ('e, 'b) backoff_end =
  Returned 'b | Reraised 'e | SleepValueError | ReturnedNone

text \<open>
  The loop \<^verbatim>\<open>for attempt in range(max_retries + 1)\<close>, with \<open>k\<close> iterations left.
  \<open>work attempt\<close> is the outcome of the work unit at the call with number \<open>attempt\<close>.
  The result is how the call ends, the sleeps made, and the number of calls of the
  work unit.
\<close>

fun backoff_loop ::
  "(nat \<Rightarrow> 'e + 'b) \<Rightarrow> int \<Rightarrow> rat \<Rightarrow> nat \<Rightarrow> nat \<Rightarrow> rat list
     \<Rightarrow> ('e, 'b) backoff_end \<times> rat list \<times> nat" where
  "backoff_loop work max_retries backoff_factor attempt 0 sleeps =
     (ReturnedNone, sleeps, attempt)"
| "backoff_loop work max_retries backoff_factor attempt (Suc k) sleeps =
     (case work attempt of
        Inr result \<Rightarrow> (Returned result, sleeps, Suc attempt)
      | Inl e \<Rightarrow>
          if int attempt = max_retries then (Reraised e, sleeps, Suc attempt)
          else
            (let wait_time = backoff_factor * 2 ^ attempt
             in if wait_time < 0 then (SleepValueError, sleeps, Suc attempt)
                else backoff_loop work max_retries backoff_factor (Suc attempt) k
                       (sleeps @ [wait_time])))"

definition schedule_with_backoff ::
  "DynamicThreadPool \<Rightarrow> (nat \<Rightarrow> 'e + 'b) \<Rightarrow> int \<Rightarrow> rat
     \<Rightarrow> (('e, 'b) backoff_end \<times> rat list \<times> nat) \<times> DynamicThreadPool" where
  "schedule_with_backoff p work max_retries backoff_factor =
     (backoff_loop work max_retries backoff_factor 0 (nat (max_retries + 1)) [], p)"

text \<open>
  What the calling thread does in \<^verbatim>\<open>schedule_batch\<close>, in order: it submits task \<open>i\<close>,
  or it collects the result of task \<open>i\<close> (\<^verbatim>\<open>future.result()\<close>).
\<close>

datatype batch_event = Submitted nat | Collected nat

text \<open>The failures that \<^verbatim>\<open>schedule_batch\<close> logs while it collects a list of futures, in order.\<close>

definition logged_errors :: "('e + 'b) list \<Rightarrow> 'e list" where
  "logged_errors futs = concat (map (\<lambda>fut. case fut of Inl e \<Rightarrow> [e] | Inr v \<Rightarrow> []) futs)"

text \<open>
  One iteration of \<^verbatim>\<open>for i in range(0, len(tasks), max_concurrent)\<close> per call, for a
  positive step. A task is given by the outcome of its call. The accumulator holds
  \<^verbatim>\<open>results\<close>, the failures logged, and the events so far.
\<close>

function batch_loop ::
  "('e + 'b option) list \<Rightarrow> nat \<Rightarrow> nat \<Rightarrow> 'b option list \<times> 'e list \<times> batch_event list
     \<Rightarrow> 'b option list \<times> 'e list \<times> batch_event list" where
  "batch_loop tasks max_concurrent i acc =
     (if i < length tasks \<and> 0 < max_concurrent then
        (let batch = take max_concurrent (drop i tasks);
             idx = [i ..< i + length batch]
         in batch_loop tasks max_concurrent (i + max_concurrent)
              (fst acc @ map result_slot batch,
               fst (snd acc) @ logged_errors batch,
               snd (snd acc) @ map Submitted idx @ map Collected idx))
      else acc)"
  by pat_completeness auto
termination
  by (relation "measure (\<lambda>(tasks, mc, i, acc). length tasks - i)") auto

declare batch_loop.simps [simp del]

text \<open>
  \<^verbatim>\<open>range(0, n, 0)\<close> raises \<^verbatim>\<open>ValueError\<close>; \<^verbatim>\<open>range(0, n, step)\<close> with a negative
  step and \<open>n \<ge> 0\<close> is empty.
\<close>

definition schedule_batch ::
  "DynamicThreadPool \<Rightarrow> ('e + 'b option) list \<Rightarrow> int option
     \<Rightarrow> (pool_error + 'b option list \<times> 'e list \<times> batch_event list) \<times> DynamicThreadPool" where
  "schedule_batch p tasks max_concurrent =
     (let mc = (case max_concurrent of None \<Rightarrow> get_worker_count p | Some m \<Rightarrow> m)
      in if mc = 0 then (Inl ValueError, p)
         else if mc < 0 then (Inr ([], [], []), p)
         else (Inr (batch_loop tasks (nat mc) 0 ([], [], [])), p))"

text \<open>
  The waves the specification speaks of: a list cut into consecutive pieces of \<open>n\<close>
  elements, the last one possibly shorter.
\<close>

function waves_of :: "nat \<Rightarrow> 'a list \<Rightarrow> 'a list list" where
  "waves_of n xs = (if n = 0 \<or> xs = [] then [] else take n xs # waves_of n (drop n xs))"
  by pat_completeness auto
termination
  by (relation "measure (\<lambda>(n, xs). length xs)") auto

declare waves_of.simps [simp del]

text \<open>
  The calls that can act on a pool: the sizing step of the sampling thread, and the
  public entry points of the pool and of the scheduler built on it.
\<close>

datatype ('a, 'e, 'b) pool_action =
  Adjust rat rat
| Submit "'a \<Rightarrow> 'e + 'b" 'a
| MapItems "'a \<Rightarrow> 'e + 'b option" "'a list" "nat list"
| WithBackoff "nat \<Rightarrow> 'e + 'b" int rat
| Batch "('e + 'b option) list" "int option"

fun run_call :: "('a, 'e, 'b) pool_action \<Rightarrow> DynamicThreadPool \<Rightarrow> DynamicThreadPool" where
  "run_call (Adjust cpu mem) p = state_of (adjust_workers cpu mem p)"
| "run_call (Submit func x) p = snd (submit p func x)"
| "run_call (MapItems func xs completion) p = snd (map_pool p func xs completion)"
| "run_call (WithBackoff work mr bf) p = snd (schedule_with_backoff p work mr bf)"
| "run_call (Batch tasks mc) p = snd (schedule_batch p tasks mc)"

definition run_calls :: "('a, 'e, 'b) pool_action list \<Rightarrow> DynamicThreadPool \<Rightarrow> DynamicThreadPool" where
  "run_calls calls p = fold run_call calls p"

text \<open>The states a sequence of sizing steps goes through, the first one left out.\<close>

fun adjust_trace :: "DynamicThreadPool \<Rightarrow> (rat \<times> rat) list \<Rightarrow> DynamicThreadPool list" where
  "adjust_trace p [] = []"
| "adjust_trace p ((cpu, mem) # rest) =
     (let q = state_of (adjust_workers cpu mem p) in q # adjust_trace q rest)"

section \<open>Notions used in the statements\<close>

text \<open>The sizing invariant.\<close>

definition workers_in_bounds :: "DynamicThreadPool \<Rightarrow> bool" where
  "workers_in_bounds p \<longleftrightarrow> min_workers p \<le> current_workers p \<and> current_workers p \<le> max_workers p"

text \<open>Consecutive states of a list differ in \<open>current_workers\<close> by at most 2.\<close>

fun steps_at_most_two :: "DynamicThreadPool list \<Rightarrow> bool" where
  "steps_at_most_two (p # q # rest) =
     (\<bar>current_workers q - current_workers p\<bar> \<le> 2 \<and> steps_at_most_two (q # rest))"
| "steps_at_most_two ps = True"

text \<open>
  A pool as \<^verbatim>\<open>__init__\<close> leaves it: nothing queued, \<open>current_workers\<close> at
  \<open>min_workers\<close>, which is positive, and an executor of that size.
\<close>

definition pool_idle :: "DynamicThreadPool \<Rightarrow> bool" where
  "pool_idle p \<longleftrightarrow> task_queue p = [] \<and> current_workers p = min_workers p
                 \<and> 0 < min_workers p \<and> executor p = Some (min_workers p)"

text \<open>
  The counters as the rollover test of \<open>report_result\<close> sees them: the reported result
  is counted before the window is examined.
\<close>

definition counted_successes :: "AdaptiveRateLimiter \<Rightarrow> bool \<Rightarrow> int" where
  "counted_successes a success = success_count a + (if success then 1 else 0)"

definition counted_failures :: "AdaptiveRateLimiter \<Rightarrow> bool \<Rightarrow> int" where
  "counted_failures a success = failure_count a + (if success then 0 else 1)"

text \<open>
  The success rate as the specification words it: \<open>s / (s + f)\<close>, and 1 for a window whose
  denominator is zero.
\<close>

definition spec_success_rate :: "int \<Rightarrow> int \<Rightarrow> rat" where
  "spec_success_rate s f = (if s + f = 0 then 1 else of_int s / of_int (s + f))"

text \<open>Calls that report a success, calls that report a failure.\<close>

fun reported_success :: "controller_call \<Rightarrow> bool" where
  "reported_success (Report host success t) = success"
| "reported_success c = False"

fun reported_failure :: "controller_call \<Rightarrow> bool" where
  "reported_failure (Report host success t) = (\<not> success)"
| "reported_failure c = False"

text \<open>
  A call that leaves the window of \<open>a\<close> open: a report whose clock reading is less than
  \<open>window_size\<close> after \<open>window_start\<close>, or a call that reports nothing.
\<close>

fun in_open_window :: "AdaptiveRateLimiter \<Rightarrow> controller_call \<Rightarrow> bool" where
  "in_open_window a (Report host success t) = (t - window_start a < window_size a)"
| "in_open_window a c = True"

text \<open>The events of one wave: every member is submitted, then every member is collected.\<close>

definition wave_events :: "nat list \<Rightarrow> batch_event list" where
  "wave_events w = map Submitted w @ map Collected w"

section \<open>Example states\<close>

text \<open>The limiter of the four-call scenario, and a limiter whose window holds stale entries.\<close>

definition scenario_limiter :: RateLimiter where
  "scenario_limiter = RateLimiter_init 3 1 False"

definition stale_limiter :: RateLimiter where
  "stale_limiter = (RateLimiter_init 3 1 False)\<lparr>requests_host := [''h'' \<mapsto> [0, 1 / 2, 2]]\<rparr>"

text \<open>The controller of scenarios B and C: rate 10, bounds 1 and 50, one host known.\<close>

definition scenario_controller :: AdaptiveRateLimiter where
  "scenario_controller =
     (AdaptiveRateLimiter_init 10 1 50 0)\<lparr>limiters := [''h'' \<mapsto> RateLimiter_init 10 1 False]\<rparr>"

text \<open>The pool of \<^verbatim>\<open>DynamicThreadPool(min_workers=2, max_workers=20)\<close>.\<close>

definition scenario_pool :: DynamicThreadPool where
  "scenario_pool = state_of (DynamicThreadPool_init 2 20 80 80)"


section \<open>Properties of the rate window\<close>

lemma popleft_expired_idem:
  "popleft_expired b (popleft_expired b q) = popleft_expired b q"
  by (induction q) auto

lemma popleft_expired_split:
  "\<exists>dropped. q = dropped @ popleft_expired b q \<and> (\<forall>t \<in> set dropped. t \<le> b)"
proof (induction q)
  case Nil
  show ?case by simp
next
  case (Cons t ts)
  then obtain d where d: "ts = d @ popleft_expired b ts" "\<forall>x \<in> set d. x \<le> b"
    by blast
  show ?case
  proof (cases "t \<le> b")
    case True
    have "t # ts = (t # d) @ popleft_expired b (t # ts)"
      using d(1) True by simp
    moreover have "\<forall>x \<in> set (t # d). x \<le> b"
      using d(2) True by simp
    ultimately show ?thesis by blast
  next
    case False
    then have "t # ts = [] @ popleft_expired b (t # ts)" by simp
    then show ?thesis by (metis empty_iff list.set(1))
  qed
qed

lemma popleft_expired_filter:
  "filter (\<lambda>t. t > b) (popleft_expired b q) = filter (\<lambda>t. t > b) q"
  by (induction q) auto

lemma window_queue_after_can:
  "window_queue (snd (can_make_request l host now)) host =
     popleft_expired (now - time_window l) (window_queue l host)"
  by (simp add: can_make_request_def window_queue_def host_requests_of_def Let_def)

lemma can_make_request_fst:
  "fst (can_make_request l host now) =
     (int (length (popleft_expired (now - time_window l) (window_queue l host))) < max_requests l)"
  by (simp add: can_make_request_def window_queue_def Let_def)

lemma can_make_request_fields [simp]:
  "max_requests (snd (can_make_request l host now)) = max_requests l"
  "time_window (snd (can_make_request l host now)) = time_window l"
  "global_limit (snd (can_make_request l host now)) = global_limit l"
  by (simp_all add: can_make_request_def Let_def split: if_splits)

lemma can_make_request_twice_state:
  "snd (can_make_request (snd (can_make_request l host now)) host now) =
     snd (can_make_request l host now)"
  by (simp add: can_make_request_def host_requests_of_def Let_def popleft_expired_idem)

lemma can_make_request_twice_answer:
  "fst (can_make_request (snd (can_make_request l host now)) host now) =
     fst (can_make_request l host now)"
  by (simp add: can_make_request_fst window_queue_after_can popleft_expired_idem)

lemma can_make_request_repeat_state:
  "((\<lambda>s. snd (can_make_request s host now)) ^^ n) (snd (can_make_request l host now)) =
     snd (can_make_request l host now)"
  by (induction n) (simp_all add: can_make_request_twice_state)

text \<open>
  C8. Repeating \<open>can_make_request\<close> at the same query time, with no \<open>record_request\<close> in
  between: after the first call, any number \<open>n\<close> of further calls leaves the limiter as the
  first call left it, and the next call returns the boolean the first call returned.
  The eviction of the first call removes a prefix of the window whose timestamps all
  satisfy \<open>t \<le> now - time_window\<close>, so the timestamps retained by the brute-force filter
  \<open>t > now - time_window\<close>, and with them the remaining capacity, are unchanged.
\<close>

theorem can_make_request_idempotent:
  fixes l :: RateLimiter and host :: "string option" and now :: rat and n :: nat
  defines "l1 \<equiv> snd (can_make_request l host now)"
  defines "lrep \<equiv> ((\<lambda>s. snd (can_make_request s host now)) ^^ n) l1"
  shows "lrep = l1
       \<and> fst (can_make_request lrep host now) = fst (can_make_request l host now)
       \<and> (\<exists>dropped. window_queue l host = dropped @ window_queue l1 host
                    \<and> (\<forall>t \<in> set dropped. t \<le> now - time_window l))
       \<and> brute_force_retained l1 host now = brute_force_retained l host now
       \<and> max_requests l1 = max_requests l"
proof -
  have a: "lrep = l1"
    unfolding lrep_def l1_def by (rule can_make_request_repeat_state)
  have b: "fst (can_make_request lrep host now) = fst (can_make_request l host now)"
    unfolding a unfolding l1_def by (rule can_make_request_twice_answer)
  have c: "\<exists>dropped. window_queue l host = dropped @ window_queue l1 host
                    \<and> (\<forall>t \<in> set dropped. t \<le> now - time_window l)"
    unfolding l1_def window_queue_after_can by (rule popleft_expired_split)
  have d: "brute_force_retained l1 host now = brute_force_retained l host now"
    unfolding l1_def brute_force_retained_def window_queue_after_can
    by (simp add: popleft_expired_filter)
  have e: "max_requests l1 = max_requests l"
    unfolding l1_def by simp
  from a b c d e show ?thesis by blast
qed

theorem can_make_request_idempotent_witness:
  "window_queue stale_limiter (Some ''h'') = [0, 1 / 2, 2]
   \<and> window_queue (snd (can_make_request stale_limiter (Some ''h'') (3 / 2))) (Some ''h'') = [2]
   \<and> fst (can_make_request stale_limiter (Some ''h'') (3 / 2))
   \<and> fst (can_make_request
            (((\<lambda>s. snd (can_make_request s (Some ''h'') (3 / 2))) ^^ 2)
               (snd (can_make_request stale_limiter (Some ''h'') (3 / 2))))
            (Some ''h'') (3 / 2))
   \<and> brute_force_retained stale_limiter (Some ''h'') (3 / 2) = [2]"
  using can_make_request_idempotent [where l = stale_limiter and host = "Some ''h''" and now = "3 / 2" and n = 2]
  by (simp add: stale_limiter_def RateLimiter_init_def can_make_request_def window_queue_def
      host_requests_of_def host_key_def brute_force_retained_def Let_def numeral_2_eq_2)

section \<open>Scenario A: four calls in one window\<close>

lemma record_request_queue:
  "window_queue (record_request l host t) host = window_queue l host @ [t]"
  by (simp add: record_request_def window_queue_def host_requests_of_def Let_def)

lemma record_request_fields [simp]:
  "max_requests (record_request l host t) = max_requests l"
  "time_window (record_request l host t) = time_window l"
  "global_limit (record_request l host t) = global_limit l"
  by (simp_all add: record_request_def Let_def)

lemma wait_if_needed_unfold:
  "wait_if_needed l host tc tn =
     (let l1 = snd (can_make_request l host tc) in
      if fst (can_make_request l host tc) then (0, [], record_request l1 host tn)
      else
        (let sleep_time = (case window_queue l1 host of [] \<Rightarrow> 0
                           | e # _ \<Rightarrow> max 0 (e + time_window l1 - tn))
         in (sleep_time, (if sleep_time > 0 then [sleep_time] else []),
             record_request l1 host (tn + sleep_time))))"
  by (cases "can_make_request l host tc") (simp add: wait_if_needed_def Let_def)

lemma wait_if_needed_fast:
  assumes "int (length (popleft_expired (tc - time_window l) (window_queue l host))) < max_requests l"
  shows "fst (wait_if_needed l host tc tn) = 0"
    and "fst (snd (wait_if_needed l host tc tn)) = []"
    and "window_queue (snd (snd (wait_if_needed l host tc tn))) host =
           popleft_expired (tc - time_window l) (window_queue l host) @ [tn]"
    and "max_requests (snd (snd (wait_if_needed l host tc tn))) = max_requests l"
    and "time_window (snd (snd (wait_if_needed l host tc tn))) = time_window l"
  using assms
  by (simp_all add: wait_if_needed_unfold can_make_request_fst window_queue_after_can
      record_request_queue Let_def)

lemma wait_if_needed_slow:
  assumes "\<not> int (length (popleft_expired (tc - time_window l) (window_queue l host))) < max_requests l"
    and "popleft_expired (tc - time_window l) (window_queue l host) = e # es"
  shows "fst (wait_if_needed l host tc tn) = max 0 (e + time_window l - tn)"
    and "fst (snd (wait_if_needed l host tc tn)) =
           (if max 0 (e + time_window l - tn) > 0 then [max 0 (e + time_window l - tn)] else [])"
    and "window_queue (snd (snd (wait_if_needed l host tc tn))) host =
           (e # es) @ [tn + max 0 (e + time_window l - tn)]"
  using assms
  by (simp_all add: wait_if_needed_unfold can_make_request_fst window_queue_after_can
      record_request_queue Let_def)

text \<open>
  C7. A limiter with \<open>max_requests = 3\<close> and \<open>time_window = 1\<close> whose window for the
  host is empty, and four calls of \<open>wait_if_needed\<close> whose eight clock readings
  \<open>t1 \<le> \<dots> \<le> t8\<close> are such that the fourth call checks capacity less than one
  window after the first call recorded (\<open>t7 < t2 + 1\<close>): the first three calls return
  \<open>0\<close> without sleeping and record their clock reading; the fourth returns
  \<open>max 0 (t2 + 1 - t8)\<close>, the oldest timestamp plus the window minus now, sleeps that
  long when it is positive, and records \<open>t8\<close> plus the wait.
\<close>

theorem wait_if_needed_four_calls:
  fixes l :: RateLimiter and host :: "string option"
    and t1 t2 t3 t4 t5 t6 t7 t8 :: rat
  assumes mr: "max_requests l = 3" and tw: "time_window l = 1"
    and empty: "window_queue l host = []"
    and clock: "t1 \<le> t2" "t2 \<le> t3" "t3 \<le> t4" "t4 \<le> t5" "t5 \<le> t6" "t6 \<le> t7" "t7 \<le> t8"
    and burst: "t7 < t2 + 1"
  defines "r1 \<equiv> wait_if_needed l host t1 t2"
  defines "r2 \<equiv> wait_if_needed (snd (snd r1)) host t3 t4"
  defines "r3 \<equiv> wait_if_needed (snd (snd r2)) host t5 t6"
  defines "r4 \<equiv> wait_if_needed (snd (snd r3)) host t7 t8"
  shows "fst r1 = 0 \<and> fst (snd r1) = [] \<and> window_queue (snd (snd r1)) host = [t2]
       \<and> fst r2 = 0 \<and> fst (snd r2) = [] \<and> window_queue (snd (snd r2)) host = [t2, t4]
       \<and> fst r3 = 0 \<and> fst (snd r3) = [] \<and> window_queue (snd (snd r3)) host = [t2, t4, t6]
       \<and> fst r4 = max 0 (t2 + 1 - t8)
       \<and> fst (snd r4) = (if t8 < t2 + 1 then [t2 + 1 - t8] else [])
       \<and> window_queue (snd (snd r4)) host = [t2, t4, t6, t8 + max 0 (t2 + 1 - t8)]"
proof -
  have f1: "int (length (popleft_expired (t1 - time_window l) (window_queue l host))) < max_requests l"
    by (simp add: empty mr)
  note s1 = wait_if_needed_fast [OF f1, of t2, folded r1_def]
  have q1: "window_queue (snd (snd r1)) host = [t2]"
    using s1(3) by (simp add: empty)
  have m1: "max_requests (snd (snd r1)) = 3" "time_window (snd (snd r1)) = 1"
    using s1(4,5) mr tw by simp_all
  have e2: "popleft_expired (t3 - time_window (snd (snd r1))) (window_queue (snd (snd r1)) host) = [t2]"
    using clock burst by (simp add: q1 m1)
  have f2: "int (length (popleft_expired (t3 - time_window (snd (snd r1)))
                 (window_queue (snd (snd r1)) host))) < max_requests (snd (snd r1))"
    using e2 by (simp add: m1)
  note s2 = wait_if_needed_fast [OF f2, of t4, folded r2_def]
  have q2: "window_queue (snd (snd r2)) host = [t2, t4]"
    using s2(3) by (simp add: e2)
  have m2: "max_requests (snd (snd r2)) = 3" "time_window (snd (snd r2)) = 1"
    using s2(4,5) m1 by simp_all
  have e3: "popleft_expired (t5 - time_window (snd (snd r2))) (window_queue (snd (snd r2)) host) = [t2, t4]"
    using clock burst by (simp add: q2 m2)
  have f3: "int (length (popleft_expired (t5 - time_window (snd (snd r2)))
                 (window_queue (snd (snd r2)) host))) < max_requests (snd (snd r2))"
    using e3 by (simp add: m2)
  note s3 = wait_if_needed_fast [OF f3, of t6, folded r3_def]
  have q3: "window_queue (snd (snd r3)) host = [t2, t4, t6]"
    using s3(3) by (simp add: e3)
  have m3: "max_requests (snd (snd r3)) = 3" "time_window (snd (snd r3)) = 1"
    using s3(4,5) m2 by simp_all
  have e4: "popleft_expired (t7 - time_window (snd (snd r3))) (window_queue (snd (snd r3)) host)
              = t2 # [t4, t6]"
    using clock burst by (simp add: q3 m3)
  have f4: "\<not> int (length (popleft_expired (t7 - time_window (snd (snd r3)))
                 (window_queue (snd (snd r3)) host))) < max_requests (snd (snd r3))"
    using e4 by (simp add: m3)
  note s4 = wait_if_needed_slow [OF f4 e4, of t8, folded r4_def]
  have w4: "fst r4 = max 0 (t2 + 1 - t8)"
    using s4(1) by (simp add: m3)
  have sl4: "fst (snd r4) = (if t8 < t2 + 1 then [t2 + 1 - t8] else [])"
    using s4(2) by (simp add: m3 max_def)
  have q4: "window_queue (snd (snd r4)) host = [t2, t4, t6, t8 + max 0 (t2 + 1 - t8)]"
    using s4(3) by (simp add: m3)
  from s1(1,2) q1 s2(1,2) q2 s3(1,2) q3 w4 sl4 q4 show ?thesis by blast
qed

theorem wait_if_needed_four_calls_witness:
  "fst (wait_if_needed
         (snd (snd (wait_if_needed
           (snd (snd (wait_if_needed
             (snd (snd (wait_if_needed scenario_limiter (Some ''h'') 0 (1 / 10))))
             (Some ''h'') (2 / 10) (3 / 10))))
           (Some ''h'') (4 / 10) (5 / 10))))
         (Some ''h'') (6 / 10) (7 / 10)) = 4 / 10"
  using wait_if_needed_four_calls [where l = scenario_limiter and host = "Some ''h''"
      and ?t1.0 = 0 and ?t2.0 = "1 / 10" and ?t3.0 = "2 / 10" and ?t4.0 = "3 / 10"
      and ?t5.0 = "4 / 10" and ?t6.0 = "5 / 10" and ?t7.0 = "6 / 10" and ?t8.0 = "7 / 10"]
  by (simp add: scenario_limiter_def RateLimiter_init_def window_queue_def host_requests_of_def
      host_key_def)

section \<open>Rollover of the adaptive rate window\<close>



text \<open>
  The two rates differ where the denominator is zero, and only there: the guard
  \<open>max 1\<close> of the code gives 0, the specification 1.
\<close>

lemma window_success_rate_zero:
  "window_success_rate 0 0 = 0" and "spec_success_rate 0 0 = 1"
  by (simp_all add: window_success_rate_def spec_success_rate_def)

lemma report_result_rollover:
  assumes "current_time - window_start a \<ge> window_size a"
  shows "report_result a host success current_time =
     (let new_rate = adjusted_rate a
            (window_success_rate (counted_successes a success) (counted_failures a success))
      in a\<lparr>current_rate := new_rate, window_start := current_time,
            success_count := 0, failure_count := 0,
            limiters := (\<lambda>h. map_option (\<lambda>limiter. limiter\<lparr>max_requests := new_rate\<rparr>)
                                               (limiters a h))\<rparr>)"
  using assms
  by (simp add: report_result_def Let_def counted_successes_def counted_failures_def
      adjusted_rate_def)

lemma report_result_open:
  assumes "current_time - window_start a < window_size a"
  shows "report_result a host success current_time =
           (if success then a\<lparr>success_count := success_count a + 1\<rparr>
            else a\<lparr>failure_count := failure_count a + 1\<rparr>)"
  using assms by (simp add: report_result_def Let_def not_le)

lemma get_limiter_fields:
  "success_count (snd (get_limiter a host)) = success_count a"
  "failure_count (snd (get_limiter a host)) = failure_count a"
  "current_rate (snd (get_limiter a host)) = current_rate a"
  "window_start (snd (get_limiter a host)) = window_start a"
  "window_size (snd (get_limiter a host)) = window_size a"
  "min_rate (snd (get_limiter a host)) = min_rate a"
  "max_rate (snd (get_limiter a host)) = max_rate a"
  by (simp_all add: get_limiter_def Let_def split: option.splits)

lemma wait_state:
  "snd (snd (AdaptiveRateLimiter_wait_if_needed a host tc tn)) =
     (snd (get_limiter a host))
       \<lparr>limiters := (limiters (snd (get_limiter a host)))
          (host \<mapsto> snd (snd (wait_if_needed (fst (get_limiter a host)) (Some host) tc tn)))\<rparr>"
  by (simp add: AdaptiveRateLimiter_wait_if_needed_def split: prod.splits)

lemma wait_fields:
  "success_count (snd (snd (AdaptiveRateLimiter_wait_if_needed a host tc tn))) = success_count a"
  "failure_count (snd (snd (AdaptiveRateLimiter_wait_if_needed a host tc tn))) = failure_count a"
  "current_rate (snd (snd (AdaptiveRateLimiter_wait_if_needed a host tc tn))) = current_rate a"
  "window_start (snd (snd (AdaptiveRateLimiter_wait_if_needed a host tc tn))) = window_start a"
  "window_size (snd (snd (AdaptiveRateLimiter_wait_if_needed a host tc tn))) = window_size a"
  "min_rate (snd (snd (AdaptiveRateLimiter_wait_if_needed a host tc tn))) = min_rate a"
  "max_rate (snd (snd (AdaptiveRateLimiter_wait_if_needed a host tc tn))) = max_rate a"
  by (simp_all add: wait_state get_limiter_fields)

lemma should_delay_state:
  "snd (should_delay_request a host now) =
     (snd (get_limiter a host))
       \<lparr>limiters := (limiters (snd (get_limiter a host)))
          (host \<mapsto> snd (can_make_request (fst (get_limiter a host)) (Some host) now))\<rparr>"
  by (simp add: should_delay_request_def split: prod.splits)

lemma should_delay_fields:
  "success_count (snd (should_delay_request a host now)) = success_count a"
  "failure_count (snd (should_delay_request a host now)) = failure_count a"
  "current_rate (snd (should_delay_request a host now)) = current_rate a"
  "window_start (snd (should_delay_request a host now)) = window_start a"
  "window_size (snd (should_delay_request a host now)) = window_size a"
  "min_rate (snd (should_delay_request a host now)) = min_rate a"
  "max_rate (snd (should_delay_request a host now)) = max_rate a"
  by (simp_all add: should_delay_state get_limiter_fields)

lemma set_host_rate_state:
  "set_host_rate_limit a host rate =
     (snd (get_limiter a host))
       \<lparr>limiters := (limiters (snd (get_limiter a host)))
          (host \<mapsto> (fst (get_limiter a host))\<lparr>max_requests := rate\<rparr>)\<rparr>"
  by (simp add: set_host_rate_limit_def split: prod.splits)

lemma set_host_rate_fields:
  "success_count (set_host_rate_limit a host rate) = success_count a"
  "failure_count (set_host_rate_limit a host rate) = failure_count a"
  "current_rate (set_host_rate_limit a host rate) = current_rate a"
  "window_start (set_host_rate_limit a host rate) = window_start a"
  "window_size (set_host_rate_limit a host rate) = window_size a"
  "min_rate (set_host_rate_limit a host rate) = min_rate a"
  "max_rate (set_host_rate_limit a host rate) = max_rate a"
  by (simp_all add: set_host_rate_state get_limiter_fields)





lemma open_window_call:
  assumes "in_open_window a c"
  defines "b \<equiv> run_controller_call c a"
  shows "success_count b = success_count a + (if reported_success c then 1 else 0)"
    and "failure_count b = failure_count a + (if reported_failure c then 1 else 0)"
    and "current_rate b = current_rate a" and "window_start b = window_start a"
    and "window_size b = window_size a" and "min_rate b = min_rate a"
    and "max_rate b = max_rate a"
  using assms(1) unfolding b_def
  by (cases c; simp add: report_result_open get_limiter_fields wait_fields
        should_delay_fields set_host_rate_fields)+

lemma open_window_run:
  assumes "\<forall>c \<in> set calls. in_open_window a c"
  defines "b \<equiv> run_controller calls a"
  shows "success_count b = success_count a + int (length (filter reported_success calls))
       \<and> failure_count b = failure_count a + int (length (filter reported_failure calls))
       \<and> current_rate b = current_rate a \<and> window_start b = window_start a
       \<and> window_size b = window_size a \<and> min_rate b = min_rate a
       \<and> max_rate b = max_rate a"
  using assms(1) unfolding b_def run_controller_def
proof (induction calls arbitrary: a)
  case Nil
  show ?case by simp
next
  case (Cons c calls)
  have c: "in_open_window a c" using Cons.prems by simp
  note st = open_window_call [OF c]
  have "\<forall>d \<in> set calls. in_open_window (run_controller_call c a) d"
  proof
    fix d assume "d \<in> set calls"
    then have "in_open_window a d" using Cons.prems by simp
    then show "in_open_window (run_controller_call c a) d"
      by (cases d) (simp_all add: st)
  qed
  from Cons.IH [OF this] show ?case
    by (simp add: st)
qed

text \<open>
  C2. A controller with \<open>current_rate = 10\<close> and both counters at 0 receives calls that
  leave the window open and then a report that rolls it over. If the reports of the
  window, the last one counted, are 95 successes and 5 failures, \<open>current_rate\<close> becomes
  \<open>min max_rate 11\<close>; if they are 5 successes and 15 failures, it becomes
  \<open>max min_rate 9\<close>. Until the rollover the rate stays 10. Afterwards both counters are 0,
  \<open>window_start\<close> is the clock reading of the last report, and every limiter that existed
  has the new rate as \<open>max_requests\<close>, the set of hosts being unchanged.
\<close>

theorem report_result_scenarios:
  fixes a :: AdaptiveRateLimiter and calls :: "controller_call list"
    and host :: string and success :: bool and current_time :: rat
  assumes rate: "current_rate a = 10"
    and fresh: "success_count a = 0 \<and> failure_count a = 0"
    and opened: "\<forall>c \<in> set calls. in_open_window a c"
    and rollover: "current_time - window_start a \<ge> window_size a"
  defines "window \<equiv> calls @ [Report host success current_time]"
  defines "before \<equiv> run_controller calls a"
  defines "a' \<equiv> run_controller window a"
  shows "(length (filter reported_success window) = 95
            \<and> length (filter reported_failure window) = 5
            \<longrightarrow> current_rate a' = min (max_rate a) 11)
       \<and> (length (filter reported_success window) = 5
            \<and> length (filter reported_failure window) = 15
            \<longrightarrow> current_rate a' = max (min_rate a) 9)
       \<and> current_rate before = 10
       \<and> success_count a' = 0 \<and> failure_count a' = 0 \<and> window_start a' = current_time
       \<and> (\<forall>h limiter. limiters before h = Some limiter
            \<longrightarrow> limiters a' h = Some (limiter\<lparr>max_requests := current_rate a'\<rparr>))
       \<and> dom (limiters a') = dom (limiters before)"
proof -
  note ow = open_window_run [OF opened, folded before_def]
  have step: "a' = report_result before host success current_time"
    by (simp add: a'_def window_def before_def run_controller_def)
  have roll: "current_time - window_start before \<ge> window_size before"
    using rollover ow by simp
  note rr = report_result_rollover [OF roll, of host success, folded step]
  have cs: "counted_successes before success
              = int (length (filter reported_success window))"
    using ow fresh by (simp add: counted_successes_def window_def)
  have cf: "counted_failures before success
              = int (length (filter reported_failure window))"
    using ow fresh by (simp add: counted_failures_def window_def)
  have cr: "current_rate a' =
              adjusted_rate before (window_success_rate
                (int (length (filter reported_success window)))
                (int (length (filter reported_failure window))))"
    unfolding rr cs cf by (simp add: Let_def)
  have b10: "current_rate before = 10" "max_rate before = max_rate a"
      "min_rate before = min_rate a"
    using ow rate by simp_all
  have up: "length (filter reported_success window) = 95
            \<and> length (filter reported_failure window) = 5
            \<longrightarrow> current_rate a' = min (max_rate a) 11"
    unfolding cr by (simp add: adjusted_rate_def window_success_rate_def b10 py_int_def)
  have down: "length (filter reported_success window) = 5
            \<and> length (filter reported_failure window) = 15
            \<longrightarrow> current_rate a' = max (min_rate a) 9"
    unfolding cr by (simp add: adjusted_rate_def window_success_rate_def b10 py_int_def)
  have reset: "success_count a' = 0 \<and> failure_count a' = 0 \<and> window_start a' = current_time"
    by (subst rr, subst rr, subst rr) (simp add: Let_def)
  have lims: "\<forall>h limiter. limiters before h = Some limiter
            \<longrightarrow> limiters a' h = Some (limiter\<lparr>max_requests := current_rate a'\<rparr>)"
    by (subst rr, subst rr) (simp add: Let_def)
  have doms: "dom (limiters a') = dom (limiters before)"
    by (subst rr) (auto simp add: Let_def dom_def)
  from up down b10(1) reset lims doms show ?thesis by blast
qed

theorem report_result_scenarios_witness:
  "current_rate
     (run_controller
        ((replicate 95 (Report ''h'' True 1) @ replicate 4 (Report ''h'' False 2))
           @ [Report ''h'' False 10])
        scenario_controller) = 11
   \<and> current_rate
     (run_controller
        ((replicate 15 (Report ''h'' False 1) @ replicate 4 (Report ''h'' True 2))
           @ [Report ''h'' True 10])
        scenario_controller) = 9"
  using report_result_scenarios [where a = scenario_controller
      and calls = "replicate 95 (Report ''h'' True 1) @ replicate 4 (Report ''h'' False 2)"
      and host = "''h''" and success = False and current_time = 10]
    report_result_scenarios [where a = scenario_controller
      and calls = "replicate 15 (Report ''h'' False 1) @ replicate 4 (Report ''h'' True 2)"
      and host = "''h''" and success = True and current_time = 10]
  by (simp add: scenario_controller_def AdaptiveRateLimiter_init_def)

section \<open>Delays\<close>

lemma uniform_jitter_bounds:
  assumes "0 \<le> r" and "r \<le> 1"
  shows "- \<bar>j\<bar> \<le> uniform (- j) j r \<and> uniform (- j) j r \<le> \<bar>j\<bar>"
proof -
  have e: "uniform (- j) j r = j * (2 * r - 1)"
    by (simp add: uniform_def algebra_simps)
  have "\<bar>2 * r - 1\<bar> \<le> 1" using assms by (simp add: abs_le_iff)
  then have "\<bar>j * (2 * r - 1)\<bar> \<le> \<bar>j\<bar>"
    by (simp add: abs_mult mult_left_le)
  then show ?thesis unfolding e by (simp add: abs_le_iff)
qed

text \<open>
  C4, as the specification states it, fails: \<open>get_delay\<close> does not clamp. With
  \<open>base_delay = 0\<close>, \<open>jitter = 1/10\<close> and the draw \<open>0\<close> it returns \<open>- 1/10\<close>.
\<close>

theorem get_delay_counterexample:
  "\<not> (0 \<le> get_delay (DelayManager_init 0 (1 / 10)) ''h'' 0)"
  by (simp add: get_delay_def DelayManager_init_def uniform_def)

text \<open>
  C4, amended. \<open>get_delay\<close> returns the override of the host when one is set, else
  \<open>base_delay\<close>, plus a jitter between \<open>- \<bar>jitter\<bar>\<close> and \<open>\<bar>jitter\<bar>\<close>, with no
  clamping; \<open>apply_delay\<close> sleeps exactly that value when it is positive and does not
  sleep otherwise, so that every sleep is positive.
\<close>

theorem delay_unclamped:
  fixes d :: DelayManager and host :: string and r :: rat
  assumes "0 \<le> r" and "r < 1"
  defines "host_base \<equiv> (case host_delays d host of None \<Rightarrow> base_delay d | Some x \<Rightarrow> x)"
  shows "get_delay d host r = host_base + uniform (- jitter d) (jitter d) r
       \<and> - \<bar>jitter d\<bar> \<le> uniform (- jitter d) (jitter d) r
       \<and> uniform (- jitter d) (jitter d) r \<le> \<bar>jitter d\<bar>
       \<and> apply_delay d host r = (if get_delay d host r > 0 then [get_delay d host r] else [])
       \<and> (\<forall>s \<in> set (apply_delay d host r). s > 0)"
proof -
  have g: "get_delay d host r = host_base + uniform (- jitter d) (jitter d) r"
    by (simp add: get_delay_def host_base_def)
  have r1: "r \<le> 1" using assms(2) by simp
  note b = uniform_jitter_bounds [OF assms(1) r1, of "jitter d"]
  have ap: "apply_delay d host r = (if get_delay d host r > 0 then [get_delay d host r] else [])"
    by (simp add: apply_delay_def Let_def)
  have pos: "\<forall>s \<in> set (apply_delay d host r). s > 0"
    unfolding ap by simp
  from g b ap pos show ?thesis by blast
qed

theorem delay_unclamped_witness:
  "get_delay (DelayManager_init (1 / 10) (1 / 20)) ''h'' (1 / 2) = 1 / 10
   \<and> apply_delay (DelayManager_init (1 / 10) (1 / 20)) ''h'' (1 / 2) = [1 / 10]
   \<and> apply_delay (DelayManager_init 0 (1 / 10)) ''h'' 0 = []"
  using delay_unclamped [where d = "DelayManager_init (1 / 10) (1 / 20)" and host = "''h''" and r = "1 / 2"]
    delay_unclamped [where d = "DelayManager_init 0 (1 / 10)" and host = "''h''" and r = 0]
  by (simp add: DelayManager_init_def uniform_def)

section \<open>Sizing of the thread pool\<close>

text \<open>
  A sizing step that changes \<open>current_workers\<close> calls \<^verbatim>\<open>_update_executor\<close> while it
  holds \<^verbatim>\<open>self._lock\<close>; the callee acquires the same non-reentrant lock, so the call
  never comes back. \<open>current_workers\<close> has been assigned by then.
\<close>

lemma update_executor_locked_blocks:
  "update_executor_locked p = Blocks (p\<lparr>lock_held := True\<rparr>)"
  by (simp add: update_executor_locked_def update_executor_def)

lemma adjust_workers_cases:
  "state_of (adjust_workers cpu mem p) = p
   \<or> (current_workers p > min_workers p
       \<and> state_of (adjust_workers cpu mem p) =
           p\<lparr>current_workers := max (min_workers p) (current_workers p - 2), lock_held := True\<rparr>)
   \<or> (current_workers p < max_workers p
       \<and> state_of (adjust_workers cpu mem p) =
           p\<lparr>current_workers := min (max_workers p) (current_workers p + 2), lock_held := True\<rparr>)"
  by (simp add: adjust_workers_def update_executor_locked_blocks)

lemma adjust_workers_step:
  fixes p :: DynamicThreadPool and cpu mem :: rat
  assumes "workers_in_bounds p"
  defines "q \<equiv> state_of (adjust_workers cpu mem p)"
  shows "workers_in_bounds q" and "min_workers q = min_workers p"
    and "max_workers q = max_workers p"
    and "\<bar>current_workers q - current_workers p\<bar> \<le> 2"
  using assms(1) adjust_workers_cases [of cpu mem p]
  unfolding q_def workers_in_bounds_def by auto

lemma adjust_trace_invariant:
  "workers_in_bounds p \<Longrightarrow>
     (\<forall>q \<in> set (adjust_trace p steps).
        workers_in_bounds q \<and> min_workers q = min_workers p \<and> max_workers q = max_workers p)
     \<and> steps_at_most_two (p # adjust_trace p steps)"
proof (induction steps arbitrary: p)
  case Nil
  show ?case by simp
next
  case (Cons s steps)
  obtain cpu mem where s: "s = (cpu, mem)" by (cases s)
  define q where "q = state_of (adjust_workers cpu mem p)"
  note st = adjust_workers_step [OF Cons.prems, of cpu mem, folded q_def]
  from Cons.IH [OF st(1)] st show ?case
    by (simp add: s Let_def q_def [symmetric])
qed

lemma init_in_bounds:
  assumes "mn \<le> mx" and "DynamicThreadPool_init mn mx ct mt = Returns p0"
  shows "workers_in_bounds p0 \<and> min_workers p0 = mn \<and> max_workers p0 = mx \<and> current_workers p0 = mn"
  using assms
  by (auto simp add: DynamicThreadPool_init_def update_executor_def workers_in_bounds_def
      split: if_splits)

text \<open>
  C5. A pool constructed with \<open>min_workers \<le> max_workers\<close> satisfies
  \<open>min_workers \<le> current_workers \<le> max_workers\<close>; and from any pool that satisfies it,
  whatever the queue holds, every state reached by a sequence of sizing steps with
  arbitrary \<open>cpu_percent\<close> and \<open>memory_percent\<close> satisfies it too, with the bounds
  unchanged, and each step changes \<open>current_workers\<close> by at most 2.
\<close>

theorem adjust_workers_invariant:
  fixes p0 p :: DynamicThreadPool
  shows "(mn \<le> mx \<and> DynamicThreadPool_init mn mx ct mt = Returns p0
            \<longrightarrow> workers_in_bounds p0 \<and> min_workers p0 = mn \<and> max_workers p0 = mx)
       \<and> (workers_in_bounds p
            \<longrightarrow> (\<forall>q \<in> set (adjust_trace p steps).
                   workers_in_bounds q \<and> min_workers q = min_workers p
                   \<and> max_workers q = max_workers p)
                \<and> steps_at_most_two (p # adjust_trace p steps))"
  using init_in_bounds [of mn mx ct mt p0] adjust_trace_invariant [of p steps]
  by blast

theorem adjust_workers_invariant_witness:
  "workers_in_bounds scenario_pool
   \<and> map current_workers
        (adjust_trace (scenario_pool\<lparr>current_workers := 5, task_queue := replicate 9 ()\<rparr>)
           [(90, 40), (10, 10)]) = [3, 3]
   \<and> map current_workers
        (adjust_trace (scenario_pool\<lparr>current_workers := 5, task_queue := replicate 9 ()\<rparr>)
           [(10, 10), (90, 40)]) = [7, 7]"
  using adjust_workers_invariant [where mn = 2 and mx = 20 and ct = 80 and mt = 80
      and ?p0.0 = scenario_pool
      and p = "scenario_pool\<lparr>current_workers := 5, task_queue := replicate 9 ()\<rparr>"
      and steps = "[(90, 40), (10, 10)]"]
  by (simp add: scenario_pool_def DynamicThreadPool_init_def update_executor_def
      workers_in_bounds_def adjust_workers_def update_executor_locked_def Let_def)

section \<open>The task queue stays empty\<close>

lemma init_idle:
  assumes "DynamicThreadPool_init mn mx ct mt = Returns p0"
  shows "pool_idle p0 \<and> min_workers p0 = mn"
  using assms
  by (auto simp add: DynamicThreadPool_init_def update_executor_def pool_idle_def
      split: if_splits)

lemma adjust_workers_idle:
  assumes "pool_idle p"
  shows "state_of (adjust_workers cpu mem p) = p"
  using assms by (simp add: adjust_workers_def pool_idle_def)

lemma run_call_idle:
  assumes "pool_idle p"
  shows "run_call c p = p"
  using assms
  by (cases c)
     (simp_all add: adjust_workers_idle submit_def map_pool_def schedule_with_backoff_def
        schedule_batch_def Let_def)

lemma run_calls_idle:
  "pool_idle p \<Longrightarrow> run_calls calls p = p"
  unfolding run_calls_def
  by (induction calls) (simp_all add: run_call_idle)

lemma run_calls_executor:
  assumes "DynamicThreadPool_init mn mx ct mt = Returns p0"
  shows "executor (run_calls calls p0) \<noteq> None"
  using init_idle [OF assms] run_calls_idle [of p0 calls] by (simp add: pool_idle_def)

text \<open>
  C10. After any sequence of sizing steps and calls of \<open>submit\<close>, \<open>map\<close>,
  \<open>schedule_with_backoff\<close> and \<open>schedule_batch\<close> on a constructed pool, the task queue
  is empty, the condition of the grow branch (queue size above \<open>current_workers\<close>) is
  false, and \<open>current_workers\<close> is still its initial value \<open>min_workers\<close>.
\<close>

theorem task_queue_never_filled:
  fixes p0 :: DynamicThreadPool and calls :: "('a, 'e, 'b) pool_action list"
  assumes "DynamicThreadPool_init mn mx ct mt = Returns p0"
  defines "p \<equiv> run_calls calls p0"
  shows "task_queue p = []
       \<and> \<not> (int (length (task_queue p)) > current_workers p)
       \<and> current_workers p = mn
       \<and> current_workers p0 = mn \<and> min_workers p = mn"
  using init_idle [OF assms(1)] run_calls_idle [of p0 calls]
  by (simp add: p_def pool_idle_def)

theorem task_queue_never_filled_witness:
  "current_workers
     (run_calls [Adjust 10 10, Submit (\<lambda>x :: nat. Inr x :: unit + nat) 1,
                 MapItems (\<lambda>x. Inr (Some x)) [1, 2] [1, 0], Adjust 90 90,
                 WithBackoff (\<lambda>k. Inr k) 3 1, Batch [Inr (Some 1), Inl ()] None, Adjust 10 10]
        scenario_pool) = 2"
  using task_queue_never_filled [where mn = 2 and mx = 20 and ct = 80 and mt = 80
      and ?p0.0 = scenario_pool
      and calls = "[Adjust 10 10, Submit (\<lambda>x :: nat. Inr x :: unit + nat) 1,
                 MapItems (\<lambda>x. Inr (Some x)) [1, 2] [1, 0], Adjust 90 90,
                 WithBackoff (\<lambda>k. Inr k) 3 1, Batch [Inr (Some 1), Inl ()] None, Adjust 10 10]"]
  by (simp add: scenario_pool_def DynamicThreadPool_init_def update_executor_def)

section \<open>Results of map\<close>







section \<open>Exponential backoff\<close>

lemma backoff_loop_all_fail:
  assumes "\<forall>k. work k = Inl (err k)" and "0 \<le> bf" and "attempt \<le> mr"
  shows "backoff_loop work (int mr) bf attempt (Suc mr - attempt) sleeps =
           (Reraised (err mr), sleeps @ map (\<lambda>k. bf * 2 ^ k) [attempt ..< mr], Suc mr)"
  using assms(3)
proof (induction "mr - attempt" arbitrary: attempt sleeps)
  case 0
  then have "attempt = mr" by simp
  then show ?case using assms(1) by simp
next
  case (Suc d)
  then have lt: "attempt < mr" and d: "d = mr - Suc attempt" by simp_all
  have s: "Suc mr - attempt = Suc (Suc mr - Suc attempt)" using lt by simp
  have w: "\<not> bf * 2 ^ attempt < 0" using assms(2) by (simp add: not_less)
  have ih: "backoff_loop work (int mr) bf (Suc attempt) (Suc mr - Suc attempt)
              (sleeps @ [bf * 2 ^ attempt]) =
            (Reraised (err mr),
             (sleeps @ [bf * 2 ^ attempt]) @ map (\<lambda>k. bf * 2 ^ k) [Suc attempt ..< mr], Suc mr)"
    using Suc.hyps(1) [OF d] lt by simp
  have "backoff_loop work (int mr) bf attempt (Suc mr - attempt) sleeps =
          backoff_loop work (int mr) bf (Suc attempt) (Suc mr - Suc attempt)
            (sleeps @ [bf * 2 ^ attempt])"
    unfolding s using assms(1) lt w by (simp add: Let_def)
  then show ?case
    using ih lt by (simp add: upt_conv_Cons)
qed

lemma backoff_loop_success:
  assumes "work k = Inr v" and "\<forall>j < k. \<exists>e. work j = Inl e" and "0 \<le> bf"
    and "attempt \<le> k" and "k < attempt + fuel" and "int k \<le> mr"
  shows "backoff_loop work mr bf attempt fuel sleeps =
           (Returned v, sleeps @ map (\<lambda>j. bf * 2 ^ j) [attempt ..< k], Suc k)"
  using assms(4,5)
proof (induction "k - attempt" arbitrary: attempt fuel sleeps)
  case 0
  then have e: "attempt = k" by simp
  from 0 obtain f where f: "fuel = Suc f" by (cases fuel) simp_all
  show ?case using assms(1) by (simp add: e f)
next
  case (Suc d)
  then have lt: "attempt < k" and d: "d = k - Suc attempt" by simp_all
  from Suc obtain f where f: "fuel = Suc f" by (cases fuel) simp_all
  obtain e where e: "work attempt = Inl e" using assms(2) lt by blast
  have ne: "int attempt \<noteq> mr" using lt assms(6) by simp
  have w: "\<not> bf * 2 ^ attempt < 0" using assms(3) by (simp add: not_less)
  have k2: "k < Suc attempt + f" using Suc.prems(2) f by simp
  have ih: "backoff_loop work mr bf (Suc attempt) f (sleeps @ [bf * 2 ^ attempt]) =
            (Returned v,
             (sleeps @ [bf * 2 ^ attempt]) @ map (\<lambda>j. bf * 2 ^ j) [Suc attempt ..< k], Suc k)"
    using Suc.hyps(1) [OF d _ k2] lt by simp
  have "backoff_loop work mr bf attempt fuel sleeps =
          backoff_loop work mr bf (Suc attempt) f (sleeps @ [bf * 2 ^ attempt])"
    using e ne w by (simp add: f Let_def)
  then show ?case
    using ih lt by (simp add: upt_conv_Cons)
qed

text \<open>
  C6. With \<open>max_retries = 3\<close> and \<open>backoff_factor = 1\<close>, a work unit that fails at every
  call is called exactly four times, the scheduler sleeps 1, 2 and 4 seconds after the
  calls 0, 1 and 2, and the failure of the fourth call is re-raised with no further sleep.
  For any \<open>max_retries\<close> and non-negative \<open>backoff_factor\<close>: when the call \<open>k\<close> is the
  first to succeed, \<open>k \<le> max_retries\<close>, its result is returned at once, after the
  sleeps \<open>backoff_factor \<cdot> 2 ^ j\<close> for the failed calls \<open>j < k\<close>.
\<close>

theorem schedule_with_backoff_law:
  fixes p :: DynamicThreadPool and work :: "nat \<Rightarrow> 'e + 'b" and err :: "nat \<Rightarrow> 'e"
    and mr :: int and bf :: rat and k :: nat and v :: 'b
  shows "((\<forall>j. work j = Inl (err j))
            \<longrightarrow> fst (schedule_with_backoff p work 3 1) = (Reraised (err 3), [1, 2, 4], 4))
       \<and> (work k = Inr v \<and> (\<forall>j < k. \<exists>e. work j = Inl e) \<and> 0 \<le> bf \<and> int k \<le> mr
            \<longrightarrow> fst (schedule_with_backoff p work mr bf)
                  = (Returned v, map (\<lambda>j. bf * 2 ^ j) [0 ..< k], Suc k))"
proof -
  have a: "fst (schedule_with_backoff p work 3 1) = (Reraised (err 3), [1, 2, 4], 4)"
    if h: "\<forall>j. work j = Inl (err j)"
  proof -
    have u: "[0 ..< 3] = [0, Suc 0, 2 :: nat]"
      by (simp add: upt_conv_Cons numeral_3_eq_3 numeral_2_eq_2)
    have "backoff_loop work (int 3) 1 0 (Suc 3 - 0) [] =
            (Reraised (err 3), [] @ map (\<lambda>k. 1 * 2 ^ k) [0 ..< 3], Suc 3)"
      by (rule backoff_loop_all_fail [OF h]) simp_all
    then show ?thesis
      by (simp add: schedule_with_backoff_def u)
  qed
  have b: "fst (schedule_with_backoff p work mr bf)
             = (Returned v, map (\<lambda>j. bf * 2 ^ j) [0 ..< k], Suc k)"
    if h: "work k = Inr v" "\<forall>j < k. \<exists>e. work j = Inl e" "0 \<le> bf" "int k \<le> mr"
  proof -
    have "k < 0 + nat (mr + 1)" using h(4) by simp
    from backoff_loop_success [OF h(1,2,3) _ this h(4), of "[]"]
    show ?thesis by (simp add: schedule_with_backoff_def)
  qed
  from a b show ?thesis by blast
qed

theorem schedule_with_backoff_law_witness:
  "fst (schedule_with_backoff scenario_pool (\<lambda>j. Inl j :: nat + nat) 3 1)
     = (Reraised 3, [1, 2, 4], 4)
   \<and> fst (schedule_with_backoff scenario_pool
            (\<lambda>j. if j = 2 then Inr 7 else Inl j :: nat + nat) 3 (1 / 2))
     = (Returned 7, [1 / 2, 1], 3)"
  using schedule_with_backoff_law [where p = scenario_pool and work = "\<lambda>j. Inl j :: nat + nat"
      and err = "\<lambda>j. j" and mr = 3 and bf = 1 and k = 0 and v = 0]
    schedule_with_backoff_law [where p = scenario_pool
      and work = "\<lambda>j. if j = 2 then Inr 7 else Inl j :: nat + nat"
      and err = "\<lambda>j. j" and mr = 3 and bf = "1 / 2" and k = 2 and v = 7]
  by (simp add: upt_conv_Cons numeral_2_eq_2)

section \<open>Batches in waves\<close>

lemma logged_errors_append:
  "logged_errors (xs @ ys) = logged_errors xs @ logged_errors ys"
  by (simp add: logged_errors_def)

lemma waves_of_unfold:
  "0 < n \<Longrightarrow> xs \<noteq> [] \<Longrightarrow> waves_of n xs = take n xs # waves_of n (drop n xs)"
  by (subst waves_of.simps) simp

lemma waves_of_empty: "waves_of n [] = []"
  by (subst waves_of.simps) simp

lemma batch_loop_closed:
  assumes "0 < mc"
  shows "batch_loop tasks mc i acc =
           (fst acc @ map result_slot (drop i tasks),
            fst (snd acc) @ logged_errors (drop i tasks),
            snd (snd acc) @ concat (map wave_events (waves_of mc [i ..< length tasks])))"
  using assms
proof (induction tasks mc i acc rule: batch_loop.induct)
  case (1 tasks mc i acc)
  note pos = "1.prems"
  show ?case
  proof (cases "i < length tasks \<and> 0 < mc")
    case False
    then have "length tasks \<le> i" using pos by simp
    then show ?thesis
      by (subst batch_loop.simps) (simp add: logged_errors_def waves_of_empty)
  next
    case True
    define batch where "batch = take mc (drop i tasks)"
    have dr: "drop i tasks = batch @ drop (i + mc) tasks"
      by (simp add: batch_def add.commute [of i mc] flip: drop_drop)
    have lb: "length batch = min mc (length tasks - i)"
      by (simp add: batch_def)
    have tk: "take mc [i ..< length tasks] = [i ..< i + length batch]"
    proof (cases "mc \<le> length tasks - i")
      case True
      then have "i + mc \<le> length tasks" using \<open>i < length tasks \<and> 0 < mc\<close> by arith
      then show ?thesis using True by (simp add: lb take_upt)
    next
      case False
      then show ?thesis using \<open>i < length tasks \<and> 0 < mc\<close> by (simp add: lb)
    qed
    have dp: "drop mc [i ..< length tasks] = [i + mc ..< length tasks]"
      by (simp add: drop_upt)
    have ne: "[i ..< length tasks] \<noteq> []" using True by auto
    have wv: "waves_of mc [i ..< length tasks] =
                [i ..< i + length batch] # waves_of mc [i + mc ..< length tasks]"
      using waves_of_unfold [OF _ ne, of mc] True by (simp add: tk dp)
    have step: "batch_loop tasks mc i acc =
                  batch_loop tasks mc (i + mc)
                    (fst acc @ map result_slot batch,
                     fst (snd acc) @ logged_errors batch,
                     snd (snd acc) @ wave_events [i ..< i + length batch])"
      using True
      by (subst batch_loop.simps)
         (simp add: Let_def batch_def [symmetric] wave_events_def)
    show ?thesis
      unfolding step
      using "1.IH" [OF True refl refl pos, folded batch_def]
      by (simp add: dr wv logged_errors_append wave_events_def)
  qed
qed

lemma waves_of_concat: "0 < n \<Longrightarrow> concat (waves_of n xs) = xs"
proof (induction n xs rule: waves_of.induct)
  case (1 n xs)
  show ?case
  proof (cases "xs = []")
    case True
    then show ?thesis by (simp add: waves_of_empty)
  next
    case False
    then show ?thesis
      using "1.IH" "1.prems" by (simp add: waves_of_unfold)
  qed
qed

lemma waves_of_sizes:
  "0 < n \<Longrightarrow> w \<in> set (waves_of n xs) \<Longrightarrow> 0 < length w \<and> length w \<le> n"
proof (induction n xs rule: waves_of.induct)
  case (1 n xs)
  show ?case
  proof (cases "xs = []")
    case True
    then show ?thesis using "1.prems" by (simp add: waves_of_empty)
  next
    case False
    then show ?thesis
      using "1.IH" "1.prems" by (auto simp add: waves_of_unfold)
  qed
qed

lemma waves_of_full:
  "0 < n \<Longrightarrow> Suc k < length (waves_of n xs) \<Longrightarrow> length (waves_of n xs ! k) = n"
proof (induction n xs arbitrary: k rule: waves_of.induct)
  case (1 n xs)
  show ?case
  proof (cases "xs = []")
    case True
    then show ?thesis using "1.prems" by (simp add: waves_of_empty)
  next
    case False
    note u = waves_of_unfold [OF "1.prems"(1) False]
    have rest: "waves_of n (drop n xs) \<noteq> []"
      using "1.prems"(2) by (auto simp add: u)
    have "drop n xs \<noteq> []"
      using rest by (auto simp add: waves_of_empty)
    then have long: "n < length xs" by simp
    show ?thesis
    proof (cases k)
      case 0
      then show ?thesis using long by (simp add: u)
    next
      case (Suc j)
      have "Suc j < length (waves_of n (drop n xs))"
        using "1.prems"(2) Suc by (simp add: u)
      from "1.IH" [OF _ "1.prems"(1) this] False "1.prems"(1)
      show ?thesis by (simp add: u Suc)
    qed
  qed
qed

text \<open>
  C9. For a positive \<open>max_concurrent\<close>, \<open>schedule_batch\<close> returns one slot per task,
  slot \<open>i\<close> being the value of task \<open>i\<close> or the null marker when task \<open>i\<close> failed, and it
  logs the failures in order. The indices are cut into consecutive waves of
  \<open>max_concurrent\<close> tasks (the last wave may be shorter, none is empty); the calling thread
  submits all of a wave and collects all of it before it submits the next wave. Without
  \<open>max_concurrent\<close> the wave size is the pool's \<open>current_workers\<close>: a pool with
  \<open>max_concurrent\<close> workers gives the same results, log and events.
\<close>

theorem schedule_batch_waves:
  fixes p :: DynamicThreadPool and tasks :: "('e + 'b option) list" and mc :: int
  assumes "0 < mc"
  defines "waves \<equiv> waves_of (nat mc) [0 ..< length tasks]"
  shows "fst (schedule_batch p tasks (Some mc))
           = Inr (map result_slot tasks, logged_errors tasks, concat (map wave_events waves))
       \<and> length (map result_slot tasks) = length tasks
       \<and> (\<forall>i < length tasks. map result_slot tasks ! i = result_slot (tasks ! i))
       \<and> concat waves = [0 ..< length tasks]
       \<and> (\<forall>w \<in> set waves. 0 < length w \<and> length w \<le> nat mc)
       \<and> (\<forall>k. Suc k < length waves \<longrightarrow> length (waves ! k) = nat mc)
       \<and> schedule_batch p tasks None = schedule_batch p tasks (Some (get_worker_count p))
       \<and> get_worker_count p = current_workers p
       \<and> (current_workers p = mc
            \<longrightarrow> fst (schedule_batch p tasks None)
                  = Inr (map result_slot tasks, logged_errors tasks,
                         concat (map wave_events waves)))"
proof -
  have pos: "0 < nat mc" using assms(1) by simp
  have a: "fst (schedule_batch p tasks (Some mc))
           = Inr (map result_slot tasks, logged_errors tasks, concat (map wave_events waves))"
    using assms(1) by (simp add: schedule_batch_def batch_loop_closed [OF pos] waves_def)
  have c: "concat waves = [0 ..< length tasks]"
    unfolding waves_def by (rule waves_of_concat [OF pos])
  have d: "\<forall>w \<in> set waves. 0 < length w \<and> length w \<le> nat mc"
    unfolding waves_def using waves_of_sizes [OF pos] by blast
  have e: "\<forall>k. Suc k < length waves \<longrightarrow> length (waves ! k) = nat mc"
    unfolding waves_def using waves_of_full [OF pos] by blast
  have f: "schedule_batch p tasks None = schedule_batch p tasks (Some (get_worker_count p))"
    by (simp add: schedule_batch_def)
  have g: "get_worker_count p = current_workers p"
    by (simp add: get_worker_count_def)
  have h: "current_workers p = mc
            \<longrightarrow> fst (schedule_batch p tasks None)
                  = Inr (map result_slot tasks, logged_errors tasks,
                         concat (map wave_events waves))"
    using a by (simp add: f g)
  from a c d e f g h show ?thesis by simp
qed

theorem schedule_batch_waves_witness:
  "current_workers scenario_pool = 2
   \<and> fst (schedule_batch scenario_pool
            [Inr (Some 1), Inl ''x'', Inr (Some 3), Inr None, Inr (Some (5 :: nat))] None)
     = Inr ([Some 1, None, Some 3, None, Some 5], [''x''],
            [Submitted 0, Submitted 1, Collected 0, Collected 1,
             Submitted 2, Submitted 3, Collected 2, Collected 3,
             Submitted 4, Collected 4])
   \<and> fst (schedule_batch scenario_pool
            [Inr (Some 1), Inl ''x'', Inr (Some 3), Inr None, Inr (Some (5 :: nat))] (Some 2))
     = fst (schedule_batch scenario_pool
            [Inr (Some 1), Inl ''x'', Inr (Some 3), Inr None, Inr (Some (5 :: nat))] None)"
  using schedule_batch_waves [where p = scenario_pool
      and tasks = "[Inr (Some 1), Inl ''x'', Inr (Some 3), Inr None, Inr (Some (5 :: nat))]"
      and mc = 2]
  by (simp add: result_slot_def logged_errors_def wave_events_def waves_of.simps
      upt_conv_Cons numeral_2_eq_2 scenario_pool_def DynamicThreadPool_init_def
      update_executor_def)

end
